theory Spec2Isabelle
  imports Main
begin

section \<open>Data model of the chat page\<close>

text \<open>
  The chat page (\<^verbatim>\<open>ChatInterface\<close>, a React function component) and the API client
  \<^verbatim>\<open>chatApi\<close> are embedded as an event-driven state machine. A JavaScript string is a
  sequence of UTF-16 code units.
\<close>

type_synonym jsstring = "nat list"

text \<open>\<^verbatim>\<open>interface User\<close>; its field \<^verbatim>\<open>id\<close> is \<open>id_user\<close> here.\<close>

record User =
  id_user :: int
  phone :: jsstring
  name :: "jsstring option"
  bot_paused :: bool
  trip_status :: jsstring
  last_message_at :: "jsstring option"

datatype sender = from_user | from_bot | from_admin

text \<open>\<^verbatim>\<open>interface Message\<close>; its field \<^verbatim>\<open>id\<close> is \<open>id_message\<close> here.\<close>

record Message =
  id_message :: int
  user_id :: int
  content :: jsstring
  sender_type :: sender
  timestamp :: jsstring
  is_read :: bool

record Conversation =
  user :: User
  latest_message :: "Message option"
  unread_count :: int

subsection \<open>\<^verbatim>\<open>String.prototype.trim\<close>\<close>

text \<open>
  The code units that \<^verbatim>\<open>trim\<close> strips: ECMAScript WhiteSpace (TAB, VT, FF, ZWNBSP and the
  Unicode space separators) and LineTerminator (LF, CR, LS, PS).
\<close>

definition is_whitespace :: "nat \<Rightarrow> bool" where
  "is_whitespace c \<longleftrightarrow>
     c \<in> {9, 10, 11, 12, 13, 32, 160, 5760, 8232, 8233, 8239, 8287, 12288, 65279}
     \<or> (8192 \<le> c \<and> c \<le> 8202)"

definition trim :: "jsstring \<Rightarrow> jsstring" where
  "trim s = rev (dropWhile is_whitespace (rev (dropWhile is_whitespace s)))"

section \<open>Requests, responses and suspended calls\<close>

text \<open>The five endpoints of \<^verbatim>\<open>chatApi\<close> that the chat page calls.\<close>

datatype request =
    GetConversations
  | GetMessages int
  | MarkRead int
  | SendMessage int jsstring bool
  | ToggleBot int

text \<open>
  What the transport gives back: \<open>Failure\<close> is a rejected promise (transport error or
  non-2xx status); the others are the JSON bodies the page reads. \<open>Done\<close> is a body the
  page never looks at.
\<close>

datatype response =
    Failure
  | ConversationsData "Conversation list"
  | ThreadData User "Message list"
  | ToggleResult jsstring
  | Done

fun well_typed :: "request \<Rightarrow> response \<Rightarrow> bool" where
  "well_typed _ Failure = True"
| "well_typed GetConversations r = (case r of ConversationsData _ \<Rightarrow> True | _ \<Rightarrow> False)"
| "well_typed (GetMessages _) r = (case r of ThreadData _ _ \<Rightarrow> True | _ \<Rightarrow> False)"
| "well_typed (ToggleBot _) r = (case r of ToggleResult _ \<Rightarrow> True | _ \<Rightarrow> False)"
| "well_typed (MarkRead _) _ = True"
| "well_typed (SendMessage _ _ _) _ = True"

text \<open>
  Who awaits a call of \<^verbatim>\<open>fetchMessages\<close>: nobody (click, timer, toggle), the initial-load
  effect \<^verbatim>\<open>init\<close>, or \<^verbatim>\<open>handleSend\<close>. Who awaits \<^verbatim>\<open>fetchConversations\<close>: nobody, or
  \<^verbatim>\<open>init\<close> with the route parameter its closure captured.
\<close>

datatype msgs_caller = Detached | AwaitedByInit | AwaitedBySend

datatype conv_caller = ConvDetached | ConvAwaitedByInit "int option"

text \<open>A call suspended at an \<^verbatim>\<open>await\<close>, with the values its closure captured.\<close>

datatype cont =
    AfterGetConversations conv_caller
  | AfterGetMessages int msgs_caller
  | AfterMarkRead int msgs_caller
  | AfterSend int
  | AfterToggle int

datatype notification =
    FailedLoadConversations
  | FailedLoadMessages
  | MessageSent
  | FailedSend
  | FailedToggle
  | ToggleMessage jsstring

datatype effect = Req request | Notify notification

section \<open>The component and its environment\<close>

text \<open>
  The seven \<^verbatim>\<open>useState\<close> cells of \<^verbatim>\<open>ChatInterface\<close>, the route parameter
  (\<^verbatim>\<open>useParams\<close>, already parsed by \<^verbatim>\<open>parseInt\<close>), whether the component is mounted,
  the requests in flight with the call each one resumes, the browser's table of live
  intervals (each with the \<^verbatim>\<open>selectedUser\<close> its callback captured), the handle that the
  polling effect's cleanup holds, and the trace of requests issued and notifications shown.
\<close>

record world =
  conversations :: "Conversation list"
  selectedUser :: "User option"
  messages :: "Message list"
  newMessage :: jsstring
  loading :: bool
  sending :: bool
  sendViaWhatsApp :: bool
  userId :: "int option"
  mounted :: bool
  pending :: "(nat \<times> request \<times> cont) list"
  next_req :: nat
  timers :: "(nat \<times> User option) list"
  interval :: "nat option"
  next_timer :: nat
  trace :: "effect list"

definition issue :: "request \<Rightarrow> cont \<Rightarrow> world \<Rightarrow> world" where
  "issue r k w =
     w\<lparr>pending := pending w @ [(next_req w, r, k)],
       next_req := Suc (next_req w),
       trace := trace w @ [Req r]\<rparr>"

definition notify :: "notification \<Rightarrow> world \<Rightarrow> world" where
  "notify n w = w\<lparr>trace := trace w @ [Notify n]\<rparr>"

text \<open>State setters: React drops an update of a component that is no longer mounted.\<close>

definition setConversations :: "Conversation list \<Rightarrow> world \<Rightarrow> world" where
  "setConversations cs w = (if mounted w then w\<lparr>conversations := cs\<rparr> else w)"

definition setNewMessage :: "jsstring \<Rightarrow> world \<Rightarrow> world" where
  "setNewMessage t w = (if mounted w then w\<lparr>newMessage := t\<rparr> else w)"

definition setLoading :: "bool \<Rightarrow> world \<Rightarrow> world" where
  "setLoading b w = (if mounted w then w\<lparr>loading := b\<rparr> else w)"

definition setSending :: "bool \<Rightarrow> world \<Rightarrow> world" where
  "setSending b w = (if mounted w then w\<lparr>sending := b\<rparr> else w)"

definition setSendViaWhatsApp :: "bool \<Rightarrow> world \<Rightarrow> world" where
  "setSendViaWhatsApp b w = (if mounted w then w\<lparr>sendViaWhatsApp := b\<rparr> else w)"

subsection \<open>The polling effect\<close>

text \<open>
  \<^verbatim>\<open>useEffect(() => { const interval = setInterval(...); return () => clearInterval(interval); }, [selectedUser])\<close>
\<close>

definition clearInterval :: "nat \<Rightarrow> world \<Rightarrow> world" where
  "clearInterval h w = w\<lparr>timers := filter (\<lambda>p. fst p \<noteq> h) (timers w)\<rparr>"

definition polling_cleanup :: "world \<Rightarrow> world" where
  "polling_cleanup w =
     (case interval w of
        None \<Rightarrow> w
      | Some h \<Rightarrow> (clearInterval h w)\<lparr>interval := None\<rparr>)"

definition polling_setup :: "world \<Rightarrow> world" where
  "polling_setup w =
     w\<lparr>timers := timers w @ [(next_timer w, selectedUser w)],
       interval := Some (next_timer w),
       next_timer := Suc (next_timer w)\<rparr>"

definition rerun_polling :: "world \<Rightarrow> world" where
  "rerun_polling w = polling_setup (polling_cleanup w)"

text \<open>
  \<^verbatim>\<open>setSelectedUser(data.user); setMessages(data.messages);\<close> The user object of a
  response is a fresh object, so the dependency \<^verbatim>\<open>[selectedUser]\<close> of the polling
  effect changes with every commit and the effect runs again.
\<close>

definition commit_thread :: "User \<Rightarrow> Message list \<Rightarrow> world \<Rightarrow> world" where
  "commit_thread u ms w =
     (if mounted w then rerun_polling (w\<lparr>selectedUser := Some u, messages := ms\<rparr>) else w)"

subsection \<open>\<^verbatim>\<open>fetchConversations\<close> and \<^verbatim>\<open>fetchMessages\<close>\<close>

definition fetchConversations :: "conv_caller \<Rightarrow> world \<Rightarrow> world" where
  "fetchConversations c w = issue GetConversations (AfterGetConversations c) w"

definition fetchMessages :: "int \<Rightarrow> msgs_caller \<Rightarrow> world \<Rightarrow> world" where
  "fetchMessages uid c w = issue (GetMessages uid) (AfterGetMessages uid c) w"

text \<open>
  What the awaiting caller does once \<^verbatim>\<open>fetchMessages\<close> has returned (it never throws):
  \<^verbatim>\<open>init\<close> clears \<^verbatim>\<open>loading\<close>; \<^verbatim>\<open>handleSend\<close> notifies and runs its \<^verbatim>\<open>finally\<close>.
\<close>

fun resume_caller :: "msgs_caller \<Rightarrow> world \<Rightarrow> world" where
  "resume_caller Detached w = w"
| "resume_caller AwaitedByInit w = setLoading False w"
| "resume_caller AwaitedBySend w = setSending False (notify MessageSent w)"

text \<open>\<^verbatim>\<open>fetchConversations\<close> after \<^verbatim>\<open>await chatApi.getConversations(1, 50)\<close>.\<close>

definition fetchConversations_got :: "conv_caller \<Rightarrow> response \<Rightarrow> world \<Rightarrow> world" where
  "fetchConversations_got c r w =
     (let w1 = (case r of
                  ConversationsData cs \<Rightarrow> setConversations cs w
                | _ \<Rightarrow> notify FailedLoadConversations w)
      in case c of
           ConvDetached \<Rightarrow> w1
         | ConvAwaitedByInit None \<Rightarrow> setLoading False w1
         | ConvAwaitedByInit (Some uid) \<Rightarrow> fetchMessages uid AwaitedByInit w1)"

text \<open>\<^verbatim>\<open>fetchMessages\<close> after \<^verbatim>\<open>await chatApi.getMessages(uid, 1, 100)\<close>.\<close>

definition fetchMessages_got :: "int \<Rightarrow> msgs_caller \<Rightarrow> response \<Rightarrow> world \<Rightarrow> world" where
  "fetchMessages_got uid c r w =
     (case r of
        ThreadData u ms \<Rightarrow> issue (MarkRead uid) (AfterMarkRead uid c) (commit_thread u ms w)
      | _ \<Rightarrow> resume_caller c (notify FailedLoadMessages w))"

text \<open>\<^verbatim>\<open>fetchMessages\<close> after \<^verbatim>\<open>await chatApi.markAsRead(uid)\<close>.\<close>

definition fetchMessages_marked :: "int \<Rightarrow> msgs_caller \<Rightarrow> response \<Rightarrow> world \<Rightarrow> world" where
  "fetchMessages_marked uid c r w =
     (case r of
        Failure \<Rightarrow> resume_caller c (notify FailedLoadMessages w)
      | _ \<Rightarrow> resume_caller c (fetchConversations ConvDetached w))"

subsection \<open>\<^verbatim>\<open>handleSend\<close> and \<^verbatim>\<open>handleToggleBot\<close>\<close>

definition handleSend :: "world \<Rightarrow> world" where
  "handleSend w =
     (if trim (newMessage w) = [] then w
      else case selectedUser w of
             None \<Rightarrow> w
           | Some u \<Rightarrow>
               issue (SendMessage (id_user u) (newMessage w) (sendViaWhatsApp w))
                 (AfterSend (id_user u)) (setSending True w))"

text \<open>\<^verbatim>\<open>handleSend\<close> after \<^verbatim>\<open>await chatApi.sendMessage(...)\<close>.\<close>

definition handleSend_sent :: "int \<Rightarrow> response \<Rightarrow> world \<Rightarrow> world" where
  "handleSend_sent uid r w =
     (case r of
        Failure \<Rightarrow> setSending False (notify FailedSend w)
      | _ \<Rightarrow> fetchMessages uid AwaitedBySend (setNewMessage [] w))"

definition handleToggleBot :: "world \<Rightarrow> world" where
  "handleToggleBot w =
     (case selectedUser w of
        None \<Rightarrow> w
      | Some u \<Rightarrow> issue (ToggleBot (id_user u)) (AfterToggle (id_user u)) w)"

definition handleToggleBot_done :: "int \<Rightarrow> response \<Rightarrow> world \<Rightarrow> world" where
  "handleToggleBot_done uid r w =
     (case r of
        ToggleResult m \<Rightarrow>
          fetchConversations ConvDetached
            (fetchMessages uid Detached (notify (ToggleMessage m) w))
      | _ \<Rightarrow> notify FailedToggle w)"

subsection \<open>The initial-load effect and navigation\<close>

text \<open>
  \<^verbatim>\<open>useEffect(() => { init(); }, [userId])\<close>: \<^verbatim>\<open>init\<close> sets \<^verbatim>\<open>loading\<close>, awaits
  \<^verbatim>\<open>fetchConversations\<close>, then \<^verbatim>\<open>fetchMessages\<close> when the route names a user, and clears
  \<^verbatim>\<open>loading\<close>.
\<close>

definition init_effect :: "world \<Rightarrow> world" where
  "init_effect w = fetchConversations (ConvAwaitedByInit (userId w)) (setLoading True w)"

definition navigate :: "int option \<Rightarrow> world \<Rightarrow> world" where
  "navigate r w = (if userId w = r then w else init_effect (w\<lparr>userId := r\<rparr>))"

text \<open>
  The \<^verbatim>\<open>onClick\<close> of a conversation item:
  \<^verbatim>\<open>navigate(`/chat/${conv.user.id}`); fetchMessages(conv.user.id);\<close>
  The handler issues the thread request; the route change takes effect at the next
  render.
\<close>

definition click_conversation :: "int \<Rightarrow> world \<Rightarrow> world" where
  "click_conversation uid w = navigate (Some uid) (fetchMessages uid Detached w)"

subsection \<open>Timer callback, response delivery, mounting\<close>

text \<open>A cleared interval never fires; a live one runs the callback of its closure.\<close>

definition tick :: "nat \<Rightarrow> world \<Rightarrow> world" where
  "tick t w =
     (case map_of (timers w) t of
        None \<Rightarrow> w
      | Some captured \<Rightarrow>
          (let w1 = fetchConversations ConvDetached w
           in case captured of
                None \<Rightarrow> w1
              | Some u \<Rightarrow> fetchMessages (id_user u) Detached w1))"

fun resume :: "cont \<Rightarrow> response \<Rightarrow> world \<Rightarrow> world" where
  "resume (AfterGetConversations c) r w = fetchConversations_got c r w"
| "resume (AfterGetMessages uid c) r w = fetchMessages_got uid c r w"
| "resume (AfterMarkRead uid c) r w = fetchMessages_marked uid c r w"
| "resume (AfterSend uid) r w = handleSend_sent uid r w"
| "resume (AfterToggle uid) r w = handleToggleBot_done uid r w"

definition deliver :: "nat \<Rightarrow> response \<Rightarrow> world \<Rightarrow> world" where
  "deliver rid r w =
     (case map_of (pending w) rid of
        None \<Rightarrow> w
      | Some (q, k) \<Rightarrow>
          if well_typed q r
          then resume k r (w\<lparr>pending := filter (\<lambda>p. fst p \<noteq> rid) (pending w)\<rparr>)
          else w)"

definition unmount :: "world \<Rightarrow> world" where
  "unmount w = (if mounted w then (polling_cleanup w)\<lparr>mounted := False\<rparr> else w)"

definition mount :: "int option \<Rightarrow> world" where
  "mount route =
     polling_setup (init_effect
       \<lparr>conversations = [], selectedUser = None, messages = [], newMessage = [],
        loading = True, sending = False, sendViaWhatsApp = True,
        userId = route, mounted = True, pending = [], next_req = 0,
        timers = [], interval = None, next_timer = 0, trace = []\<rparr>)"

subsection \<open>Events\<close>

text \<open>
  While \<^verbatim>\<open>loading\<close> the component renders only a spinner. The thread pane (header,
  messages, compose box) is rendered only when a user is selected. The text field is
  \<^verbatim>\<open>disabled={sending}\<close>, the send button \<^verbatim>\<open>disabled={sending || !newMessage.trim()}\<close>.
\<close>

definition ui_ready :: "world \<Rightarrow> bool" where
  "ui_ready w \<longleftrightarrow> mounted w \<and> \<not> loading w"

definition thread_pane :: "world \<Rightarrow> bool" where
  "thread_pane w \<longleftrightarrow> ui_ready w \<and> selectedUser w \<noteq> None"

definition text_field_disabled :: "world \<Rightarrow> bool" where
  "text_field_disabled w \<longleftrightarrow> sending w"

definition send_button_disabled :: "world \<Rightarrow> bool" where
  "send_button_disabled w \<longleftrightarrow> sending w \<or> trim (newMessage w) = []"

datatype event =
    ClickConversation int
  | ClickRefresh
  | ClickSend
  | PressEnter
  | TypeText jsstring
  | SwitchWhatsApp bool
  | SwitchBot
  | RouteChange "int option"
  | Tick nat
  | Respond nat response
  | Unmount

fun step :: "event \<Rightarrow> world \<Rightarrow> world" where
  "step (ClickConversation uid) w =
     (if ui_ready w \<and> uid \<in> set (map (\<lambda>c. id_user (user c)) (conversations w))
      then click_conversation uid w else w)"
| "step ClickRefresh w = (if ui_ready w then fetchConversations ConvDetached w else w)"
| "step ClickSend w =
     (if thread_pane w \<and> \<not> send_button_disabled w then handleSend w else w)"
| "step PressEnter w =
     (if thread_pane w \<and> \<not> text_field_disabled w then handleSend w else w)"
| "step (TypeText t) w =
     (if thread_pane w \<and> \<not> text_field_disabled w then setNewMessage t w else w)"
| "step (SwitchWhatsApp b) w = (if thread_pane w then setSendViaWhatsApp b w else w)"
| "step SwitchBot w = (if thread_pane w then handleToggleBot w else w)"
| "step (RouteChange r) w = (if mounted w then navigate r w else w)"
| "step (Tick t) w = tick t w"
| "step (Respond rid r) w = deliver rid r w"
| "step Unmount w = unmount w"

fun run :: "event list \<Rightarrow> world \<Rightarrow> world" where
  "run [] w = w"
| "run (e # es) w = run es (step e w)"

section \<open>Observations, invariants and sample data\<close>

text \<open>The network calls recorded in a trace, in the order they were issued.\<close>

fun requests_of :: "effect list \<Rightarrow> request list" where
  "requests_of [] = []"
| "requests_of (Req q # t) = q # requests_of t"
| "requests_of (Notify n # t) = requests_of t"

text \<open>
  Request ids and interval handles are handed out in increasing order, every live
  interval is the one the polling effect holds, that handle has been handed out, and an
  unmounted component holds none.
\<close>

definition wf_world :: "world \<Rightarrow> bool" where
  "wf_world w \<longleftrightarrow>
     (\<forall>p\<in>set (pending w). fst p < next_req w) \<and>
     (\<forall>p\<in>set (timers w). fst p < next_timer w) \<and>
     (\<forall>p\<in>set (timers w). interval w = Some (fst p)) \<and>
     (\<forall>h. interval w = Some h \<longrightarrow> h < next_timer w) \<and>
     (\<not> mounted w \<longrightarrow> interval w = None)"

text \<open>The worlds the page can be in: mounted on some route, then any events.\<close>

inductive reachable :: "world \<Rightarrow> bool" where
  reachable_mount: "reachable (mount route)"
| reachable_step: "reachable w \<Longrightarrow> reachable (step e w)"

text \<open>Two customers, one message each, and the conversation list that shows them.\<close>

definition alice :: User where
  "alice = \<lparr>id_user = 1, phone = [57, 49], name = Some [65], bot_paused = False,
            trip_status = [97], last_message_at = None\<rparr>"

definition bob :: User where
  "bob = \<lparr>id_user = 2, phone = [57, 50], name = None, bot_paused = True,
          trip_status = [97], last_message_at = None\<rparr>"

definition alice_msg :: Message where
  "alice_msg = \<lparr>id_message = 10, user_id = 1, content = [72, 105], sender_type = from_user,
                timestamp = [49], is_read = False\<rparr>"

definition bob_msg :: Message where
  "bob_msg = \<lparr>id_message = 11, user_id = 2, content = [72, 111], sender_type = from_bot,
              timestamp = [50], is_read = True\<rparr>"

definition inbox :: "Conversation list" where
  "inbox = [\<lparr>user = alice, latest_message = Some alice_msg, unread_count = 3\<rparr>,
            \<lparr>user = bob, latest_message = None, unread_count = 0\<rparr>]"

text \<open>
  The page is mounted on \<^verbatim>\<open>/chat\<close>, the list loads, the admin clicks Alice; the initial-load
  effect for the new route runs to its end. The thread request of the click itself
  (request 1) and the refresh after mark-read (request 5) are still in flight.
\<close>

definition open_alice :: "event list" where
  "open_alice =
     [Respond 0 (ConversationsData inbox), ClickConversation 1,
      Respond 2 (ConversationsData inbox), Respond 3 (ThreadData alice [alice_msg]),
      Respond 4 Done]"

definition chat_open :: world where
  "chat_open = run open_alice (mount None)"

text \<open>The admin has typed \<^verbatim>\<open>Hi\<close>; then the send button is clicked and the post is in flight.\<close>

definition composing :: world where
  "composing = run [TypeText [72, 105]] chat_open"

definition awaiting_post :: world where
  "awaiting_post = run [ClickSend] composing"

text \<open>
  From \<open>chat_open\<close> the admin clicks Bob: now Alice's thread request of the first click
  (request 1) and Bob's (request 6) are both in flight.
\<close>

definition both_in_flight :: world where
  "both_in_flight = run [ClickConversation 2] chat_open"

text \<open>
  The click on Bob and everything it starts run to their end (both thread requests for
  Bob, both mark-read calls, every refresh), while request 1 is still unanswered; then
  the answer to request 1 arrives and what it starts runs to its end.
\<close>

definition switch_to_bob :: "event list" where
  "switch_to_bob =
     [ClickConversation 2, Respond 6 (ThreadData bob [bob_msg]),
      Respond 7 (ConversationsData inbox), Respond 9 (ThreadData bob [bob_msg]),
      Respond 8 Done, Respond 10 Done, Respond 5 (ConversationsData inbox),
      Respond 11 (ConversationsData inbox), Respond 12 (ConversationsData inbox)]"

definition bob_shown :: world where
  "bob_shown = run switch_to_bob chat_open"

definition alice_late :: "event list" where
  "alice_late =
     [Respond 1 (ThreadData alice [alice_msg]), Respond 13 Done,
      Respond 14 (ConversationsData inbox)]"

subsection \<open>Predicates on worlds\<close>

text \<open>An interval handle that has been handed out and is no longer live.\<close>

definition stopped :: "nat \<Rightarrow> world \<Rightarrow> bool" where
  "stopped h w \<longleftrightarrow> h < next_timer w \<and> h \<notin> fst ` set (timers w)"

definition torn_down :: "world \<Rightarrow> bool" where
  "torn_down w \<longleftrightarrow> \<not> mounted w \<and> timers w = []"

text \<open>
  The thread pane is coherent when every message shown belongs to the user in the
  header; a thread response is coherent when its messages belong to its user.
\<close>

definition coherent :: "world \<Rightarrow> bool" where
  "coherent w \<longleftrightarrow>
     (case selectedUser w of
        None \<Rightarrow> messages w = []
      | Some u \<Rightarrow> \<forall>m\<in>set (messages w). user_id m = id_user u)"

fun coherent_event :: "event \<Rightarrow> bool" where
  "coherent_event (Respond rid (ThreadData u ms)) = (\<forall>m\<in>set ms. user_id m = id_user u)"
| "coherent_event _ = True"

section \<open>Basic facts\<close>

lemmas op_defs = issue_def notify_def setConversations_def setNewMessage_def setLoading_def
  setSending_def setSendViaWhatsApp_def clearInterval_def polling_cleanup_def polling_setup_def
  rerun_polling_def commit_thread_def fetchConversations_def fetchMessages_def
  fetchConversations_got_def fetchMessages_got_def fetchMessages_marked_def handleSend_def
  handleSend_sent_def handleToggleBot_def handleToggleBot_done_def init_effect_def navigate_def
  click_conversation_def tick_def deliver_def unmount_def

lemmas ev_defs = op_defs mount_def ui_ready_def thread_pane_def text_field_disabled_def
  send_button_disabled_def trim_def is_whitespace_def

subsection \<open>What each primitive leaves alone\<close>

lemma frame_notify [simp]:
  "pending (notify n w) = pending w" "next_req (notify n w) = next_req w"
  "mounted (notify n w) = mounted w" "sending (notify n w) = sending w"
  "messages (notify n w) = messages w" "newMessage (notify n w) = newMessage w"
  "conversations (notify n w) = conversations w" "selectedUser (notify n w) = selectedUser w"
  "trace (notify n w) = trace w @ [Notify n]"
  by (simp_all add: notify_def)

lemma frame_issue [simp]:
  "pending (issue q k w) = pending w @ [(next_req w, q, k)]"
  "next_req (issue q k w) = Suc (next_req w)"
  "mounted (issue q k w) = mounted w" "sending (issue q k w) = sending w"
  "messages (issue q k w) = messages w" "newMessage (issue q k w) = newMessage w"
  "conversations (issue q k w) = conversations w" "selectedUser (issue q k w) = selectedUser w"
  "trace (issue q k w) = trace w @ [Req q]"
  by (simp_all add: issue_def)

lemma frame_setSending [simp]:
  "pending (setSending b w) = pending w" "next_req (setSending b w) = next_req w"
  "mounted (setSending b w) = mounted w"
  "sending (setSending b w) = (if mounted w then b else sending w)"
  "messages (setSending b w) = messages w" "newMessage (setSending b w) = newMessage w"
  "conversations (setSending b w) = conversations w"
  "selectedUser (setSending b w) = selectedUser w"
  "trace (setSending b w) = trace w"
  by (simp_all add: setSending_def)

lemma frame_setNewMessage [simp]:
  "pending (setNewMessage t w) = pending w" "next_req (setNewMessage t w) = next_req w"
  "mounted (setNewMessage t w) = mounted w" "sending (setNewMessage t w) = sending w"
  "messages (setNewMessage t w) = messages w"
  "newMessage (setNewMessage t w) = (if mounted w then t else newMessage w)"
  "conversations (setNewMessage t w) = conversations w"
  "selectedUser (setNewMessage t w) = selectedUser w"
  "trace (setNewMessage t w) = trace w"
  by (simp_all add: setNewMessage_def)

lemma frame_setLoading [simp]:
  "pending (setLoading b w) = pending w" "next_req (setLoading b w) = next_req w"
  "mounted (setLoading b w) = mounted w" "sending (setLoading b w) = sending w"
  "messages (setLoading b w) = messages w" "newMessage (setLoading b w) = newMessage w"
  "conversations (setLoading b w) = conversations w"
  "selectedUser (setLoading b w) = selectedUser w"
  "trace (setLoading b w) = trace w"
  by (simp_all add: setLoading_def)

lemma frame_setConversations [simp]:
  "pending (setConversations cs w) = pending w" "next_req (setConversations cs w) = next_req w"
  "mounted (setConversations cs w) = mounted w" "sending (setConversations cs w) = sending w"
  "messages (setConversations cs w) = messages w"
  "newMessage (setConversations cs w) = newMessage w"
  "conversations (setConversations cs w) = (if mounted w then cs else conversations w)"
  "selectedUser (setConversations cs w) = selectedUser w"
  "trace (setConversations cs w) = trace w"
  by (simp_all add: setConversations_def)

lemma frame_commit_thread [simp]:
  "pending (commit_thread u ms w) = pending w" "next_req (commit_thread u ms w) = next_req w"
  "mounted (commit_thread u ms w) = mounted w" "sending (commit_thread u ms w) = sending w"
  "messages (commit_thread u ms w) = (if mounted w then ms else messages w)"
  "newMessage (commit_thread u ms w) = newMessage w"
  "conversations (commit_thread u ms w) = conversations w"
  "selectedUser (commit_thread u ms w) = (if mounted w then Some u else selectedUser w)"
  "trace (commit_thread u ms w) = trace w"
  by (simp_all add: commit_thread_def rerun_polling_def polling_setup_def polling_cleanup_def
      clearInterval_def split: option.splits)

lemma well_typed_ignored [simp]:
  "well_typed (MarkRead uid) r" "well_typed (SendMessage uid t b) r"
  by (cases r; simp)+

lemma requests_of_append: "requests_of (a @ b) = requests_of a @ requests_of b"
  by (induction a rule: requests_of.induct) simp_all

subsection \<open>Well-formedness is preserved by every event\<close>

lemma wf_mount: "wf_world (mount route)"
  by (simp add: wf_world_def mount_def op_defs)

lemma wf_issue: "wf_world w \<Longrightarrow> wf_world (issue r k w)"
  by (auto simp: wf_world_def issue_def less_Suc_eq)

lemma wf_notify: "wf_world w \<Longrightarrow> wf_world (notify n w)"
  by (simp add: wf_world_def notify_def)

lemma wf_setters:
  "wf_world w \<Longrightarrow> wf_world (setConversations cs w)"
  "wf_world w \<Longrightarrow> wf_world (setNewMessage t w)"
  "wf_world w \<Longrightarrow> wf_world (setLoading b w)"
  "wf_world w \<Longrightarrow> wf_world (setSending b w)"
  "wf_world w \<Longrightarrow> wf_world (setSendViaWhatsApp b w)"
  by (simp_all add: wf_world_def op_defs)

lemma wf_commit: "wf_world w \<Longrightarrow> wf_world (commit_thread u ms w)"
  by (auto simp: wf_world_def commit_thread_def rerun_polling_def polling_setup_def
      polling_cleanup_def clearInterval_def less_Suc_eq split: option.splits)

lemma wf_unmount: "wf_world w \<Longrightarrow> wf_world (unmount w)"
  by (auto simp: wf_world_def unmount_def polling_cleanup_def clearInterval_def
      split: option.splits)

lemma wf_drop_pending: "wf_world w \<Longrightarrow> wf_world (w\<lparr>pending := filter P (pending w)\<rparr>)"
  by (simp add: wf_world_def)

lemma wf_userId: "wf_world w \<Longrightarrow> wf_world (w\<lparr>userId := r\<rparr>)"
  by (simp add: wf_world_def)

lemma wf_resume_caller: "wf_world w \<Longrightarrow> wf_world (resume_caller c w)"
  by (cases c) (simp_all add: wf_setters wf_notify)

lemma wf_fetch:
  "wf_world w \<Longrightarrow> wf_world (fetchConversations cc w)"
  "wf_world w \<Longrightarrow> wf_world (fetchMessages uid c w)"
  by (simp_all add: fetchConversations_def fetchMessages_def wf_issue)

lemma wf_resume: "wf_world w \<Longrightarrow> wf_world (resume k r w)"
  by (cases k)
     (auto simp: fetchConversations_got_def fetchMessages_got_def fetchMessages_marked_def
       handleSend_sent_def handleToggleBot_done_def wf_issue wf_notify wf_setters wf_commit
       wf_resume_caller wf_fetch Let_def
       split: response.splits conv_caller.splits option.splits)

lemma wf_step: "wf_world w \<Longrightarrow> wf_world (step e w)"
  by (cases e)
     (auto simp: click_conversation_def navigate_def init_effect_def handleSend_def
       handleToggleBot_def tick_def deliver_def wf_issue wf_notify wf_setters wf_commit
       wf_resume_caller wf_fetch wf_resume wf_unmount wf_drop_pending wf_userId Let_def
       split: option.splits)

lemma reachable_wf: "reachable w \<Longrightarrow> wf_world w"
  by (induction rule: reachable.induct) (simp_all add: wf_mount wf_step)

lemma reachable_run: "reachable w \<Longrightarrow> reachable (run es w)"
  by (induction es arbitrary: w) (simp_all add: reachable_step)

subsection \<open>Every event is a composition of the primitive operations\<close>

lemma step_pres:
  fixes P :: "world \<Rightarrow> bool"
  assumes i: "\<And>v q k. P v \<Longrightarrow> P (issue q k v)"
    and n: "\<And>v m. P v \<Longrightarrow> P (notify m v)"
    and s1: "\<And>v x. P v \<Longrightarrow> P (setConversations x v)"
    and s2: "\<And>v x. P v \<Longrightarrow> P (setNewMessage x v)"
    and s3: "\<And>v x. P v \<Longrightarrow> P (setLoading x v)"
    and s4: "\<And>v x. P v \<Longrightarrow> P (setSending x v)"
    and s5: "\<And>v x. P v \<Longrightarrow> P (setSendViaWhatsApp x v)"
    and d: "\<And>v ps. P v \<Longrightarrow> P (v\<lparr>pending := ps\<rparr>)"
    and r: "\<And>v x. P v \<Longrightarrow> P (v\<lparr>userId := x\<rparr>)"
    and u: "\<And>v. P v \<Longrightarrow> P (unmount v)"
    and c: "\<And>v rid x ms. P v \<Longrightarrow> e = Respond rid (ThreadData x ms)
              \<Longrightarrow> P (commit_thread x ms v)"
    and w: "P w"
  shows "P (step e w)"
proof -
  have rc: "P (resume_caller cl v)" if "P v" for cl v
    by (cases cl) (simp_all add: that n s3 s4)
  have fc: "P (fetchConversations cc v)" if "P v" for cc v
    by (simp add: fetchConversations_def that i)
  have fm: "P (fetchMessages uid cl v)" if "P v" for uid cl v
    by (simp add: fetchMessages_def that i)
  have res: "P (resume k rs v)" if "P v" and "\<exists>rid. e = Respond rid rs" for k rs v
    using that
    by (cases k)
       (auto simp: fetchConversations_got_def fetchMessages_got_def fetchMessages_marked_def
         handleSend_sent_def handleToggleBot_done_def Let_def
         intro!: i n s1 s2 s3 s4 rc fc fm c
         split: response.splits conv_caller.splits option.splits)
  show ?thesis
    using w
    by (cases e)
       (auto simp: click_conversation_def navigate_def init_effect_def handleSend_def
         handleToggleBot_def tick_def deliver_def Let_def
         intro!: i n s1 s2 s3 s4 s5 d r u rc fc fm res
         split: option.splits)
qed

subsection \<open>Answering the request that was issued last\<close>

lemma wf_answered:
  "wf_world w \<Longrightarrow> next_req w \<le> m \<Longrightarrow> wf_world (w\<lparr>next_req := m, trace := t\<rparr>)"
  by (auto simp: wf_world_def)

lemma fresh_lookup:
  assumes "wf_world w" and "next_req w \<le> i"
  shows "map_of (pending w) i = None"
proof -
  have "i \<notin> fst ` set (pending w)"
    using assms by (auto simp: wf_world_def)
  then show ?thesis by (simp add: map_of_eq_None_iff)
qed

lemma fresh_filter:
  assumes "wf_world w" and "next_req w \<le> i"
  shows "filter (\<lambda>p. fst p \<noteq> i) (pending w) = pending w"
  using assms by (auto simp: wf_world_def filter_id_conv)

lemma deliver_absent: "map_of (pending w) i = None \<Longrightarrow> deliver i r w = w"
  by (simp add: deliver_def)

lemma deliver_issue:
  assumes "wf_world w" and "i = next_req w" and "well_typed q r"
  shows "deliver i r (issue q k w)
           = resume k r (w\<lparr>next_req := Suc (next_req w), trace := trace w @ [Req q]\<rparr>)"
  using fresh_lookup[OF assms(1), of i] fresh_filter[OF assms(1), of i] assms(2,3)
  by (simp add: deliver_def issue_def map_add_def)

subsection \<open>The sample worlds, evaluated\<close>

lemma chat_open_eq: "chat_open =
  \<lparr>conversations = inbox, selectedUser = Some alice, messages = [alice_msg], newMessage = [],
   loading = False, sending = False, sendViaWhatsApp = True, userId = Some 1, mounted = True,
   pending = [(1, GetMessages 1, AfterGetMessages 1 Detached),
              (5, GetConversations, AfterGetConversations ConvDetached)],
   next_req = 6, timers = [(1, Some alice)], interval = Some 1, next_timer = 2,
   trace = [Req GetConversations, Req (GetMessages 1), Req GetConversations,
            Req (GetMessages 1), Req (MarkRead 1), Req GetConversations]\<rparr>"
  by (simp add: chat_open_def open_alice_def ev_defs inbox_def alice_def)

lemma composing_eq: "composing = chat_open\<lparr>newMessage := [72, 105]\<rparr>"
  by (simp add: composing_def chat_open_eq ev_defs)

lemma awaiting_post_eq: "awaiting_post =
  composing\<lparr>sending := True,
    pending := [(1, GetMessages 1, AfterGetMessages 1 Detached),
                (5, GetConversations, AfterGetConversations ConvDetached),
                (6, SendMessage 1 [72, 105] True, AfterSend 1)],
    next_req := 7,
    trace := [Req GetConversations, Req (GetMessages 1), Req GetConversations,
              Req (GetMessages 1), Req (MarkRead 1), Req GetConversations,
              Req (SendMessage 1 [72, 105] True)]\<rparr>"
  by (simp add: awaiting_post_def composing_eq chat_open_eq ev_defs alice_def)

lemma both_in_flight_eq: "both_in_flight =
  chat_open\<lparr>loading := True, userId := Some 2,
    pending := [(1, GetMessages 1, AfterGetMessages 1 Detached),
                (5, GetConversations, AfterGetConversations ConvDetached),
                (6, GetMessages 2, AfterGetMessages 2 Detached),
                (7, GetConversations, AfterGetConversations (ConvAwaitedByInit (Some 2)))],
    next_req := 8,
    trace := trace chat_open @ [Req (GetMessages 2), Req GetConversations]\<rparr>"
  by (simp add: both_in_flight_def chat_open_eq ev_defs inbox_def alice_def bob_def)

lemma bob_shown_eq: "bob_shown =
  \<lparr>conversations = inbox, selectedUser = Some bob, messages = [bob_msg], newMessage = [],
   loading = False, sending = False, sendViaWhatsApp = True, userId = Some 2, mounted = True,
   pending = [(1, GetMessages 1, AfterGetMessages 1 Detached)],
   next_req = 13, timers = [(3, Some bob)], interval = Some 3, next_timer = 4,
   trace = [Req GetConversations, Req (GetMessages 1), Req GetConversations,
            Req (GetMessages 1), Req (MarkRead 1), Req GetConversations,
            Req (GetMessages 2), Req GetConversations, Req (MarkRead 2),
            Req (GetMessages 2), Req (MarkRead 2), Req GetConversations,
            Req GetConversations]\<rparr>"
  by (simp add: bob_shown_def switch_to_bob_def chat_open_eq ev_defs inbox_def alice_def bob_def)

lemma reachable_chat_open: "reachable chat_open"
  unfolding chat_open_def by (rule reachable_run[OF reachable_mount])

lemma reachable_composing: "reachable composing"
  unfolding composing_def by (rule reachable_run[OF reachable_chat_open])

lemma reachable_awaiting_post: "reachable awaiting_post"
  unfolding awaiting_post_def by (rule reachable_run[OF reachable_composing])

section \<open>Guards of \<^verbatim>\<open>handleSend\<close>\<close>

text \<open>
  Claim C10. When no conversation is selected (\<^verbatim>\<open>selectedUser\<close> is null), \<^verbatim>\<open>handleSend\<close>
  returns at its first line, whatever the compose text is: the world is left exactly as
  it was, so no request is issued, \<^verbatim>\<open>sending\<close> is not set and nothing else changes.
\<close>

theorem handleSend_no_selection:
  "selectedUser w = None \<Longrightarrow> handleSend w = w"
  by (simp add: handleSend_def)

theorem handleSend_no_selection_witness:
  "selectedUser ((mount None)\<lparr>newMessage := [72, 105]\<rparr>) = None
   \<and> trim (newMessage ((mount None)\<lparr>newMessage := [72, 105]\<rparr>)) \<noteq> []
   \<and> handleSend ((mount None)\<lparr>newMessage := [72, 105]\<rparr>) = (mount None)\<lparr>newMessage := [72, 105]\<rparr>"
proof -
  have h: "selectedUser ((mount None)\<lparr>newMessage := [72, 105]\<rparr>) = None"
    by (simp add: ev_defs)
  have t: "trim (newMessage ((mount None)\<lparr>newMessage := [72, 105]\<rparr>)) \<noteq> []"
    by (simp add: trim_def is_whitespace_def)
  from h t handleSend_no_selection[OF h] show ?thesis by simp
qed

text \<open>
  Claim C6. When the compose text is empty or consists of whitespace only, \<^verbatim>\<open>handleSend\<close>
  returns at its first line: the world is left exactly as it was, so no request is issued
  and \<^verbatim>\<open>sending\<close> is never set. The same holds for a click on the send button and for the
  Enter key, the two ways the page invokes it.
\<close>

theorem handleSend_blank_text:
  "trim (newMessage w) = [] \<Longrightarrow>
     handleSend w = w \<and> step ClickSend w = w \<and> step PressEnter w = w"
  by (simp add: handleSend_def)

theorem handleSend_blank_text_witness:
  "trim (newMessage (chat_open\<lparr>newMessage := [32, 9, 10, 160]\<rparr>)) = []
   \<and> handleSend (chat_open\<lparr>newMessage := [32, 9, 10, 160]\<rparr>)
       = chat_open\<lparr>newMessage := [32, 9, 10, 160]\<rparr>
   \<and> step ClickSend (chat_open\<lparr>newMessage := [32, 9, 10, 160]\<rparr>)
       = chat_open\<lparr>newMessage := [32, 9, 10, 160]\<rparr>
   \<and> step PressEnter (chat_open\<lparr>newMessage := [32, 9, 10, 160]\<rparr>)
       = chat_open\<lparr>newMessage := [32, 9, 10, 160]\<rparr>"
proof -
  have h: "trim (newMessage (chat_open\<lparr>newMessage := [32, 9, 10, 160]\<rparr>)) = []"
    by (simp add: trim_def is_whitespace_def)
  from h handleSend_blank_text[OF h] show ?thesis by simp
qed

lemma no_post_resume_caller:
  "count_list (trace (resume_caller c w)) (Req (SendMessage uid t b))
     = count_list (trace w) (Req (SendMessage uid t b))"
  by (cases c) simp_all

lemma no_post_resume:
  "count_list (trace (resume k r w)) (Req (SendMessage uid t b))
     = count_list (trace w) (Req (SendMessage uid t b))"
  by (cases k; cases r)
     (auto simp: fetchConversations_got_def fetchMessages_got_def fetchMessages_marked_def
       handleSend_sent_def handleToggleBot_done_def fetchConversations_def fetchMessages_def
       Let_def no_post_resume_caller
       split: conv_caller.splits option.splits)

lemma no_post_while_sending:
  "sending w \<Longrightarrow>
     count_list (trace (step e w)) (Req (SendMessage uid t b))
       = count_list (trace w) (Req (SendMessage uid t b))"
  by (cases e)
     (auto simp: click_conversation_def navigate_def init_effect_def handleToggleBot_def
       tick_def deliver_def unmount_def polling_cleanup_def clearInterval_def
       fetchConversations_def fetchMessages_def setSendViaWhatsApp_def no_post_resume
       send_button_disabled_def text_field_disabled_def Let_def
       split: option.splits)

text \<open>
  Claim C2. While \<^verbatim>\<open>sending\<close> is true every invocation of the send operation is a local
  no-op. The page invokes \<^verbatim>\<open>handleSend\<close> from two places only, the send button and the
  Enter key of the text field, and both controls are disabled while \<^verbatim>\<open>sending\<close> is true
  (\<^verbatim>\<open>handleSend\<close> itself does not read the flag): a click on the button and the Enter key
  leave the world exactly as it was, so no request is issued and no state changes. Nor
  does any other event issue a post while \<^verbatim>\<open>sending\<close> is true: the number of posts in the
  trace stays the same under every event, until the prior send settles and clears the
  flag.
\<close>

theorem send_controls_disabled_while_sending:
  "sending w \<Longrightarrow>
     step ClickSend w = w \<and> step PressEnter w = w
     \<and> count_list (trace (step e w)) (Req (SendMessage uid t b))
         = count_list (trace w) (Req (SendMessage uid t b))"
  by (simp add: send_button_disabled_def text_field_disabled_def no_post_while_sending)

theorem send_controls_disabled_while_sending_witness:
  "sending awaiting_post \<and> thread_pane awaiting_post
   \<and> trim (newMessage awaiting_post) \<noteq> []
   \<and> step ClickSend awaiting_post = awaiting_post
   \<and> step PressEnter awaiting_post = awaiting_post
   \<and> count_list (trace awaiting_post) (Req (SendMessage 1 [72, 105] True)) = 1
   \<and> count_list (trace (step (Respond 1 (ThreadData alice [alice_msg])) awaiting_post))
        (Req (SendMessage 1 [72, 105] True)) = 1"
proof -
  have h: "sending awaiting_post"
    by (simp add: awaiting_post_eq)
  have p: "thread_pane awaiting_post \<and> trim (newMessage awaiting_post) \<noteq> []"
    by (simp add: awaiting_post_eq composing_eq chat_open_eq thread_pane_def ui_ready_def
        trim_def is_whitespace_def)
  have c: "count_list (trace awaiting_post) (Req (SendMessage 1 [72, 105] True)) = 1"
    by (simp add: awaiting_post_eq)
  from h p c
    send_controls_disabled_while_sending[OF h,
      of "Respond 1 (ThreadData alice [alice_msg])" 1 "[72, 105]" True]
  show ?thesis by simp
qed

section \<open>Failure of \<^verbatim>\<open>fetchConversations\<close>\<close>

text \<open>
  Claim C5. When \<^verbatim>\<open>fetchConversations\<close> is called in a reachable world and its request
  fails, the world afterwards is the world before the call except for the trace, which
  gained the request and the notification \<^verbatim>\<open>Failed to load conversations\<close> (and the
  request counter): \<^verbatim>\<open>conversations\<close> and every other state cell are as they were. When the
  call is awaited by the initial-load effect, that caller goes on, and \<^verbatim>\<open>conversations\<close> is
  still as it was.
\<close>

theorem fetchConversations_failure:
  assumes "reachable w"
  shows "run [Respond (next_req w) Failure] (fetchConversations ConvDetached w)
           = w\<lparr>next_req := Suc (next_req w),
               trace := trace w @ [Req GetConversations, Notify FailedLoadConversations]\<rparr>
         \<and> conversations (run [Respond (next_req w) Failure] (fetchConversations c w))
           = conversations w"
  using reachable_wf[OF assms]
  by (simp add: fetchConversations_def deliver_issue fetchConversations_got_def notify_def
      fetchMessages_def Let_def split: conv_caller.splits option.splits)

theorem fetchConversations_failure_witness:
  "reachable chat_open
   \<and> run [Respond 6 Failure] (step ClickRefresh chat_open)
       = chat_open\<lparr>next_req := 7,
           trace := trace chat_open @ [Req GetConversations, Notify FailedLoadConversations]\<rparr>
   \<and> conversations (run [Respond 6 Failure] (step ClickRefresh chat_open)) = inbox"
proof -
  have n: "next_req chat_open = 6" and c: "conversations chat_open = inbox"
    and u: "ui_ready chat_open"
    by (simp_all add: chat_open_eq ui_ready_def)
  from fetchConversations_failure[OF reachable_chat_open, of ConvDetached]
  show ?thesis
    using reachable_chat_open by (simp add: n c u)
qed

section \<open>\<^verbatim>\<open>handleSend\<close>: failure and release of the flag\<close>

lemma send_failure_run:
  assumes "wf_world w" and "mounted w" and "trim (newMessage w) \<noteq> []"
    and "selectedUser w = Some u"
  shows "run [Respond (next_req w) Failure] (handleSend w)
           = w\<lparr>sending := False, next_req := Suc (next_req w),
               trace := trace w @
                 [Req (SendMessage (id_user u) (newMessage w) (sendViaWhatsApp w)),
                  Notify FailedSend]\<rparr>"
proof -
  have "handleSend w = issue (SendMessage (id_user u) (newMessage w) (sendViaWhatsApp w))
          (AfterSend (id_user u)) (setSending True w)"
    using assms by (simp add: handleSend_def)
  moreover have "wf_world (setSending True w)"
    using assms(1) by (simp add: wf_setters)
  ultimately have "run [Respond (next_req w) Failure] (handleSend w)
      = handleSend_sent (id_user u) Failure
          ((setSending True w)\<lparr>next_req := Suc (next_req w),
             trace := trace w @
               [Req (SendMessage (id_user u) (newMessage w) (sendViaWhatsApp w))]\<rparr>)"
    by (simp add: deliver_issue)
  then show ?thesis
    using assms(2) by (simp add: handleSend_sent_def setSending_def notify_def)
qed

lemma release_marked:
  "mounted w \<Longrightarrow> \<not> sending (fetchMessages_marked uid AwaitedBySend r w)"
  by (cases r) (simp_all add: fetchMessages_marked_def fetchConversations_def)

lemma release_got:
  assumes "wf_world w" and "mounted w" and "well_typed (GetMessages uid) r2"
  shows "\<not> sending (run [Respond (next_req w) r3] (fetchMessages_got uid AwaitedBySend r2 w))"
proof (cases r2)
  case Failure
  then show ?thesis
    using assms by (simp add: fetchMessages_got_def deliver_absent fresh_lookup)
next
  case (ThreadData u ms)
  then show ?thesis
    using assms
    by (simp add: fetchMessages_got_def deliver_issue wf_commit release_marked)
qed (use assms in simp_all)

lemma release_sent:
  assumes "wf_world w" and "mounted w" and "well_typed (GetMessages uid) r2"
  shows "\<not> sending (run [Respond (next_req w) r2, Respond (Suc (next_req w)) r3]
                       (handleSend_sent uid r1 w))"
proof (cases "r1 = Failure")
  case True
  then show ?thesis
    using assms by (simp add: handleSend_sent_def deliver_absent fresh_lookup)
next
  case False
  then have "handleSend_sent uid r1 w = fetchMessages uid AwaitedBySend (setNewMessage [] w)"
    by (cases r1) (simp_all add: handleSend_sent_def)
  moreover have "wf_world (setNewMessage [] w)"
    using assms(1) by (simp add: wf_setters)
  ultimately show ?thesis
    using assms release_got[of "(setNewMessage [] w)\<lparr>next_req := Suc (next_req w),
        trace := trace w @ [Req (GetMessages uid)]\<rparr>" uid r2 r3]
    by (simp add: fetchMessages_def deliver_issue wf_answered)
qed

lemma send_release_run:
  assumes "wf_world w" and "mounted w" and "trim (newMessage w) \<noteq> []"
    and "selectedUser w = Some u" and "well_typed (GetMessages (id_user u)) r2"
  shows "\<not> sending (run [Respond (next_req w) r1, Respond (Suc (next_req w)) r2,
                         Respond (Suc (Suc (next_req w))) r3] (handleSend w))"
  using assms release_sent[of "(setSending True w)\<lparr>next_req := Suc (next_req w),
        trace := trace w @ [Req (SendMessage (id_user u) (newMessage w) (sendViaWhatsApp w))]\<rparr>"
        "id_user u" r2 r3 r1]
  by (simp add: handleSend_def deliver_issue wf_setters wf_answered)

text \<open>
  Claim C7. Let \<^verbatim>\<open>handleSend\<close> be invoked in a reachable world of the mounted page with a
  non-blank compose text and a selected user. If the post fails, the world afterwards is
  the world before the call with \<^verbatim>\<open>sending\<close> false and the trace extended by the post and
  the notification \<^verbatim>\<open>Failed to send message\<close>: the compose text is as it was. And whatever
  the post (\<open>r1\<close>), the thread reload (\<open>r2\<close>) and the mark-read call (\<open>r3\<close>) answer, once
  the calls that were made have been answered \<^verbatim>\<open>sending\<close> is false.
\<close>

theorem handleSend_failure_and_release:
  assumes "reachable w" and "mounted w" and "trim (newMessage w) \<noteq> []"
    and "selectedUser w = Some u"
  shows "run [Respond (next_req w) Failure] (handleSend w)
           = w\<lparr>sending := False, next_req := Suc (next_req w),
               trace := trace w @
                 [Req (SendMessage (id_user u) (newMessage w) (sendViaWhatsApp w)),
                  Notify FailedSend]\<rparr>
         \<and> (well_typed (GetMessages (id_user u)) r2 \<longrightarrow>
              \<not> sending (run [Respond (next_req w) r1, Respond (Suc (next_req w)) r2,
                               Respond (Suc (Suc (next_req w))) r3] (handleSend w)))"
  using send_failure_run[OF reachable_wf[OF assms(1)] assms(2-4)]
    send_release_run[OF reachable_wf[OF assms(1)] assms(2-4), of r2 r1 r3]
  by simp

theorem handleSend_failure_and_release_witness:
  "reachable composing \<and> mounted composing \<and> trim (newMessage composing) \<noteq> []
   \<and> selectedUser composing = Some alice
   \<and> well_typed (GetMessages (id_user alice)) (ThreadData alice [alice_msg])
   \<and> newMessage (run [Respond 6 Failure] (handleSend composing)) = [72, 105]
   \<and> \<not> sending (run [Respond 6 Failure] (handleSend composing))
   \<and> \<not> sending (run [Respond 6 Done, Respond 7 (ThreadData alice [alice_msg]),
                      Respond 8 Done] (handleSend composing))"
proof -
  have m: "mounted composing" and t: "trim (newMessage composing) \<noteq> []"
    and s: "selectedUser composing = Some alice" and n: "next_req composing = 6"
    and x: "newMessage composing = [72, 105]"
    by (simp_all add: composing_eq chat_open_eq trim_def is_whitespace_def)
  have y: "well_typed (GetMessages (id_user alice)) (ThreadData alice [alice_msg])"
    by simp
  from handleSend_failure_and_release[OF reachable_composing m t s,
      of "ThreadData alice [alice_msg]" Done Done]
  show ?thesis
    using reachable_composing m t s y by (simp add: n x)
qed

section \<open>\<^verbatim>\<open>handleSend\<close>: the success path\<close>

lemma thread_changes_only_by_commit:
  "messages (step e v) = messages v
   \<or> (\<exists>rid x ms. e = Respond rid (ThreadData x ms) \<and> messages (step e v) = ms)"
  by (rule step_pres[where P = "\<lambda>v'. messages v' = messages v
        \<or> (\<exists>rid x ms. e = Respond rid (ThreadData x ms) \<and> messages v' = ms)"])
     (auto simp: unmount_def polling_cleanup_def clearInterval_def setSendViaWhatsApp_def
       split: option.splits)

text \<open>
  Claim C8. Let \<^verbatim>\<open>handleSend\<close> be invoked in a reachable world of the mounted page with a
  non-blank compose text and a selected user \<open>u\<close>, and let the post succeed. Issuing the
  post leaves the thread as it was; when the post is answered the compose text is cleared,
  the thread is still as it was, and exactly one new request is in flight: the reload of
  the thread of \<open>u\<close>, awaited by \<^verbatim>\<open>handleSend\<close>. When the reload is answered the thread is
  the list of messages of that answer. No event at all changes the thread except the
  arrival of a thread response, which sets it to the messages of that response: the sent
  text is never put into the thread locally.
\<close>

theorem handleSend_success_reload:
  assumes "reachable w" and "mounted w" and "trim (newMessage w) \<noteq> []"
    and "selectedUser w = Some u" and "r1 \<noteq> Failure"
  shows "messages (handleSend w) = messages w
    \<and> messages (run [Respond (next_req w) r1] (handleSend w)) = messages w
    \<and> newMessage (run [Respond (next_req w) r1] (handleSend w)) = []
    \<and> pending (run [Respond (next_req w) r1] (handleSend w))
        = pending w @ [(Suc (next_req w), GetMessages (id_user u),
                        AfterGetMessages (id_user u) AwaitedBySend)]
    \<and> trace (run [Respond (next_req w) r1] (handleSend w))
        = trace w @ [Req (SendMessage (id_user u) (newMessage w) (sendViaWhatsApp w)),
                     Req (GetMessages (id_user u))]
    \<and> messages (run [Respond (next_req w) r1, Respond (Suc (next_req w)) (ThreadData x ms)]
                   (handleSend w)) = ms
    \<and> (messages (step e v) \<noteq> messages v \<longrightarrow>
         (\<exists>rid x' ms'. e = Respond rid (ThreadData x' ms') \<and> messages (step e v) = ms'))"
proof -
  note wf = reachable_wf[OF assms(1)]
  have start: "handleSend w
      = issue (SendMessage (id_user u) (newMessage w) (sendViaWhatsApp w))
          (AfterSend (id_user u)) (setSending True w)"
    using assms by (simp add: handleSend_def)
  have sent: "deliver (next_req w) r1 (handleSend w)
      = issue (GetMessages (id_user u)) (AfterGetMessages (id_user u) AwaitedBySend)
          (setNewMessage [] ((setSending True w)\<lparr>next_req := Suc (next_req w),
             trace := trace w @
               [Req (SendMessage (id_user u) (newMessage w) (sendViaWhatsApp w))]\<rparr>))"
    using wf assms(5)
    by (cases r1; simp add: start deliver_issue wf_setters handleSend_sent_def fetchMessages_def)
  have reload:
    "deliver (Suc (next_req w)) (ThreadData x ms) (deliver (next_req w) r1 (handleSend w))
      = fetchMessages_got (id_user u) AwaitedBySend (ThreadData x ms)
          ((setNewMessage [] ((setSending True w)\<lparr>next_req := Suc (next_req w),
             trace := trace w @
               [Req (SendMessage (id_user u) (newMessage w) (sendViaWhatsApp w))]\<rparr>))
           \<lparr>next_req := Suc (Suc (next_req w)),
            trace := trace w @
               [Req (SendMessage (id_user u) (newMessage w) (sendViaWhatsApp w)),
                Req (GetMessages (id_user u))]\<rparr>)"
    using wf by (simp add: sent deliver_issue wf_setters wf_answered)
  have 1: "messages (handleSend w) = messages w"
    by (simp add: start)
  have 2: "messages (run [Respond (next_req w) r1] (handleSend w)) = messages w"
    and 3: "newMessage (run [Respond (next_req w) r1] (handleSend w)) = []"
    and 4: "pending (run [Respond (next_req w) r1] (handleSend w))
        = pending w @ [(Suc (next_req w), GetMessages (id_user u),
                        AfterGetMessages (id_user u) AwaitedBySend)]"
    and 5: "trace (run [Respond (next_req w) r1] (handleSend w))
        = trace w @ [Req (SendMessage (id_user u) (newMessage w) (sendViaWhatsApp w)),
                     Req (GetMessages (id_user u))]"
    using assms(2) by (simp_all add: sent)
  have 6: "messages (run [Respond (next_req w) r1, Respond (Suc (next_req w)) (ThreadData x ms)]
                   (handleSend w)) = ms"
    using assms(2) by (simp add: reload fetchMessages_got_def)
  from 1 2 3 4 5 6 thread_changes_only_by_commit[of e v] show ?thesis by blast
qed

theorem handleSend_success_reload_witness:
  "reachable composing \<and> mounted composing \<and> trim (newMessage composing) \<noteq> []
   \<and> selectedUser composing = Some alice \<and> Done \<noteq> Failure
   \<and> messages (step ClickSend composing) = [alice_msg]
   \<and> messages (run [ClickSend, Respond 6 Done] composing) = [alice_msg]
   \<and> newMessage (run [ClickSend, Respond 6 Done] composing) = []
   \<and> trace (run [ClickSend, Respond 6 Done] composing)
       = trace composing @ [Req (SendMessage 1 [72, 105] True), Req (GetMessages 1)]
   \<and> messages (run [ClickSend, Respond 6 Done,
                    Respond 7 (ThreadData alice [alice_msg, bob_msg])] composing)
       = [alice_msg, bob_msg]"
proof -
  have m: "mounted composing" and t: "trim (newMessage composing) \<noteq> []"
    and s: "selectedUser composing = Some alice" and n: "next_req composing = 6"
    and x: "newMessage composing = [72, 105]" and y: "messages composing = [alice_msg]"
    and b: "sendViaWhatsApp composing" and i: "id_user alice = 1"
    and c: "thread_pane composing" "\<not> send_button_disabled composing"
    by (simp_all add: composing_eq chat_open_eq trim_def is_whitespace_def alice_def
        thread_pane_def ui_ready_def send_button_disabled_def)
  have d: "Done \<noteq> Failure" by simp
  from handleSend_success_reload[OF reachable_composing m t s d,
      of alice "[alice_msg, bob_msg]"]
  show ?thesis
    using reachable_composing m t s by (simp add: n x y b i c)
qed

section \<open>Order of the calls of \<^verbatim>\<open>fetchMessages\<close>\<close>

lemma requests_resume_caller [simp]:
  "requests_of (trace (resume_caller c w)) = requests_of (trace w)"
  by (cases c) (simp_all add: requests_of_append)

text \<open>
  Claim C4. In a run of \<^verbatim>\<open>fetchMessages(uid)\<close> from a reachable world, whoever the caller
  is, the network calls the operation has issued are, stage by stage: the thread request
  alone once it is called; still the thread request alone when that request fails; the
  thread request followed by one mark-read call for \<open>uid\<close> when it succeeds; still those
  two when mark-read fails; and those two followed by the conversations refresh when
  mark-read succeeds. So mark-read is requested only after the thread fetch for \<open>uid\<close>
  succeeded, exactly once, and the refresh only after mark-read was requested.
\<close>

theorem mark_read_ordering:
  assumes "reachable w"
  shows "requests_of (trace (fetchMessages uid c w)) = requests_of (trace w) @ [GetMessages uid]
    \<and> requests_of (trace (run [Respond (next_req w) Failure] (fetchMessages uid c w)))
        = requests_of (trace w) @ [GetMessages uid]
    \<and> requests_of (trace (run [Respond (next_req w) (ThreadData u ms)] (fetchMessages uid c w)))
        = requests_of (trace w) @ [GetMessages uid, MarkRead uid]
    \<and> requests_of (trace (run [Respond (next_req w) (ThreadData u ms),
                                 Respond (Suc (next_req w)) Failure] (fetchMessages uid c w)))
        = requests_of (trace w) @ [GetMessages uid, MarkRead uid]
    \<and> (r \<noteq> Failure \<longrightarrow>
        requests_of (trace (run [Respond (next_req w) (ThreadData u ms),
                                 Respond (Suc (next_req w)) r] (fetchMessages uid c w)))
        = requests_of (trace w) @ [GetMessages uid, MarkRead uid, GetConversations])"
proof -
  note wf = reachable_wf[OF assms]
  have got: "deliver (next_req w) rs (fetchMessages uid c w)
      = fetchMessages_got uid c rs
          (w\<lparr>next_req := Suc (next_req w), trace := trace w @ [Req (GetMessages uid)]\<rparr>)"
    if "well_typed (GetMessages uid) rs" for rs
    using wf that by (simp add: fetchMessages_def deliver_issue)
  have marked: "deliver (Suc (next_req w)) rs
        (deliver (next_req w) (ThreadData u ms) (fetchMessages uid c w))
      = fetchMessages_marked uid c rs
          ((commit_thread u ms (w\<lparr>next_req := Suc (next_req w),
              trace := trace w @ [Req (GetMessages uid)]\<rparr>))
            \<lparr>next_req := Suc (Suc (next_req w)),
             trace := trace w @ [Req (GetMessages uid), Req (MarkRead uid)]\<rparr>)" for rs
    using wf got[of "ThreadData u ms"]
    by (simp add: fetchMessages_got_def deliver_issue wf_commit wf_answered)
  have 1: "requests_of (trace (fetchMessages uid c w)) = requests_of (trace w) @ [GetMessages uid]"
    by (simp add: fetchMessages_def requests_of_append)
  have 2: "requests_of (trace (run [Respond (next_req w) Failure] (fetchMessages uid c w)))
        = requests_of (trace w) @ [GetMessages uid]"
    by (simp add: got fetchMessages_got_def requests_of_append)
  have 3: "requests_of (trace (run [Respond (next_req w) (ThreadData u ms)] (fetchMessages uid c w)))
        = requests_of (trace w) @ [GetMessages uid, MarkRead uid]"
    by (simp add: got fetchMessages_got_def requests_of_append)
  have 4: "requests_of (trace (run [Respond (next_req w) (ThreadData u ms),
                                 Respond (Suc (next_req w)) Failure] (fetchMessages uid c w)))
        = requests_of (trace w) @ [GetMessages uid, MarkRead uid]"
    by (simp add: marked fetchMessages_marked_def requests_of_append)
  have 5: "requests_of (trace (run [Respond (next_req w) (ThreadData u ms),
                                 Respond (Suc (next_req w)) r] (fetchMessages uid c w)))
        = requests_of (trace w) @ [GetMessages uid, MarkRead uid, GetConversations]"
    if "r \<noteq> Failure"
    using that
    by (cases r; simp add: marked fetchMessages_marked_def fetchConversations_def
        requests_of_append)
  from 1 2 3 4 5 show ?thesis by blast
qed

theorem mark_read_ordering_witness:
  "reachable chat_open \<and> Done \<noteq> Failure
   \<and> requests_of (trace (run [Respond 6 Failure] (fetchMessages 1 Detached chat_open)))
       = requests_of (trace chat_open) @ [GetMessages 1]
   \<and> requests_of (trace (run [Respond 6 (ThreadData alice [alice_msg]), Respond 7 Done]
                            (fetchMessages 1 Detached chat_open)))
       = requests_of (trace chat_open) @ [GetMessages 1, MarkRead 1, GetConversations]"
proof -
  have n: "next_req chat_open = 6"
    by (simp add: chat_open_eq)
  have d: "Done \<noteq> Failure" by simp
  from mark_read_ordering[OF reachable_chat_open, of 1 Detached alice "[alice_msg]" Done]
  show ?thesis
    using reachable_chat_open d by (simp add: n)
qed

section \<open>Thread responses that arrive out of order\<close>

text \<open>
  Claim C1, as stated, fails: \<^verbatim>\<open>fetchMessages\<close> commits every thread response it receives
  and compares it with nothing. The admin clicks Alice, then Bob, before the thread
  request of the click on Alice is answered. In \<open>bob_shown\<close> everything the click on Bob
  started has been answered: the route and the thread pane show Bob, and only Alice's
  request 1 is in flight. Its answer then arrives and is committed: with no request left
  in flight, the route is Bob's and the thread pane shows Alice and her messages.
\<close>

theorem stale_drop_counterexample:
  "userId bob_shown = Some 2 \<and> selectedUser bob_shown = Some bob
   \<and> messages bob_shown = [bob_msg]
   \<and> pending bob_shown = [(1, GetMessages 1, AfterGetMessages 1 Detached)]
   \<and> pending (run alice_late bob_shown) = []
   \<and> userId (run alice_late bob_shown) = Some 2
   \<and> selectedUser (run alice_late bob_shown) = Some alice
   \<and> messages (run alice_late bob_shown) = [alice_msg]"
  by (simp add: bob_shown_eq alice_late_def ev_defs)

lemma map_of_filter_other:
  "a \<noteq> b \<Longrightarrow> map_of (filter (\<lambda>p. fst p \<noteq> a) xs) b = map_of xs b"
  by (induction xs) auto

lemma deliver_thread:
  assumes "map_of (pending w) a = Some (GetMessages ua, AfterGetMessages ua ca)"
  shows "deliver a (ThreadData x ms) w
    = issue (MarkRead ua) (AfterMarkRead ua ca)
        (commit_thread x ms (w\<lparr>pending := filter (\<lambda>p. fst p \<noteq> a) (pending w)\<rparr>))"
  using assms by (simp add: deliver_def fetchMessages_got_def)

text \<open>
  Claim C1, amended. Thread responses are committed in the order they arrive, none is
  discarded: when two thread requests are in flight on the mounted page and both are
  answered, the first answer is committed when it arrives and the second replaces it, so
  after both the selected user and the thread are those of the answer that arrived last,
  whichever request was issued first and whatever is selected at that moment.
\<close>

theorem last_thread_response_wins:
  assumes "mounted w"
    and "map_of (pending w) a = Some (GetMessages ua, AfterGetMessages ua ca)"
    and "map_of (pending w) b = Some (GetMessages ub, AfterGetMessages ub cb)"
    and "a \<noteq> b"
  shows "selectedUser (run [Respond a (ThreadData xa ma)] w) = Some xa
       \<and> messages (run [Respond a (ThreadData xa ma)] w) = ma
       \<and> selectedUser (run [Respond a (ThreadData xa ma), Respond b (ThreadData xb mb)] w)
           = Some xb
       \<and> messages (run [Respond a (ThreadData xa ma), Respond b (ThreadData xb mb)] w) = mb"
proof -
  let ?w1 = "deliver a (ThreadData xa ma) w"
  have w1: "?w1 = issue (MarkRead ua) (AfterMarkRead ua ca)
        (commit_thread xa ma (w\<lparr>pending := filter (\<lambda>p. fst p \<noteq> a) (pending w)\<rparr>))"
    by (rule deliver_thread[OF assms(2)])
  have m1: "mounted ?w1" and s1: "selectedUser ?w1 = Some xa" and t1: "messages ?w1 = ma"
    using assms(1) by (simp_all add: w1)
  have "map_of (pending ?w1) b = Some (GetMessages ub, AfterGetMessages ub cb)"
    using assms(3,4) by (simp add: w1 map_of_filter_other map_add_def)
  then have "deliver b (ThreadData xb mb) ?w1
      = issue (MarkRead ub) (AfterMarkRead ub cb)
          (commit_thread xb mb (?w1\<lparr>pending := filter (\<lambda>p. fst p \<noteq> b) (pending ?w1)\<rparr>))"
    by (rule deliver_thread)
  then have "selectedUser (deliver b (ThreadData xb mb) ?w1) = Some xb"
    and "messages (deliver b (ThreadData xb mb) ?w1) = mb"
    using m1 by simp_all
  with s1 t1 show ?thesis by simp
qed

theorem last_thread_response_wins_witness:
  "mounted both_in_flight
   \<and> map_of (pending both_in_flight) 1 = Some (GetMessages 1, AfterGetMessages 1 Detached)
   \<and> map_of (pending both_in_flight) 6 = Some (GetMessages 2, AfterGetMessages 2 Detached)
   \<and> (1::nat) \<noteq> 6
   \<and> selectedUser (run [Respond 1 (ThreadData alice [alice_msg]),
                        Respond 6 (ThreadData bob [bob_msg])] both_in_flight) = Some bob
   \<and> messages (run [Respond 1 (ThreadData alice [alice_msg]),
                    Respond 6 (ThreadData bob [bob_msg])] both_in_flight) = [bob_msg]"
proof -
  have m: "mounted both_in_flight"
    and a: "map_of (pending both_in_flight) 1 = Some (GetMessages 1, AfterGetMessages 1 Detached)"
    and b: "map_of (pending both_in_flight) 6 = Some (GetMessages 2, AfterGetMessages 2 Detached)"
    by (simp_all add: both_in_flight_eq chat_open_eq)
  have d: "(1::nat) \<noteq> 6" by simp
  from last_thread_response_wins[OF m a b d, of alice "[alice_msg]" bob "[bob_msg]"]
  show ?thesis using m a b by simp
qed

section \<open>Header and thread belong together\<close>

lemma coherent_step: "coherent w \<Longrightarrow> coherent_event e \<Longrightarrow> coherent (step e w)"
  by (rule step_pres)
     (auto simp: coherent_def op_defs split: option.splits)

lemma coherent_run:
  "coherent w \<Longrightarrow> list_all coherent_event es \<Longrightarrow> coherent (run es w)"
  by (induction es arbitrary: w) (simp_all add: coherent_step)

lemma coherent_mount: "coherent (mount route)"
  by (simp add: coherent_def mount_def op_defs)

text \<open>
  Claim C3. A successful thread fetch on the mounted page sets \<^verbatim>\<open>selectedUser\<close> and
  \<^verbatim>\<open>messages\<close> in one step, both from the response it received. So, as long as every
  thread response of the backend carries messages of its own user, in every world the
  page reaches, before or after any commit, every message shown has the \<^verbatim>\<open>user_id\<close> of the
  user in the header (and no message is shown while no user is selected).
\<close>

theorem atomic_paired_commit:
  assumes "list_all coherent_event es"
  shows "coherent (run es (mount route))
       \<and> (mounted w \<longrightarrow>
            selectedUser (fetchMessages_got uid c (ThreadData u ms) w) = Some u
            \<and> messages (fetchMessages_got uid c (ThreadData u ms) w) = ms)"
  using coherent_run[OF coherent_mount assms, of route]
  by (simp add: fetchMessages_got_def)

theorem atomic_paired_commit_witness:
  "list_all coherent_event open_alice \<and> coherent chat_open
   \<and> selectedUser chat_open = Some alice \<and> messages chat_open = [alice_msg]
   \<and> user_id alice_msg = id_user alice
   \<and> mounted chat_open
   \<and> selectedUser (fetchMessages_got 2 Detached (ThreadData bob [bob_msg]) chat_open) = Some bob
   \<and> messages (fetchMessages_got 2 Detached (ThreadData bob [bob_msg]) chat_open) = [bob_msg]"
proof -
  have h: "list_all coherent_event open_alice"
    by (simp add: open_alice_def alice_def alice_msg_def)
  have f: "selectedUser chat_open = Some alice" "messages chat_open = [alice_msg]"
    "user_id alice_msg = id_user alice" "mounted chat_open"
    by (simp_all add: chat_open_eq alice_def alice_msg_def)
  from atomic_paired_commit[OF h, of None chat_open 2 Detached bob "[bob_msg]"]
  show ?thesis
    using h f by (simp add: chat_open_def)
qed

section \<open>Teardown of the polling timer\<close>

lemma stopped_step: "stopped h w \<Longrightarrow> stopped h (step e w)"
  by (rule step_pres)
     (auto simp: stopped_def op_defs less_Suc_eq split: option.splits)

lemma stopped_run: "stopped h w \<Longrightarrow> stopped h (run es w)"
  by (induction es arbitrary: w) (simp_all add: stopped_step)

lemma tick_stopped:
  assumes "stopped h w"
  shows "tick h w = w"
proof -
  have "map_of (timers w) h = None"
    using assms by (simp add: stopped_def map_of_eq_None_iff)
  then show ?thesis by (simp add: tick_def)
qed

lemma torn_down_step: "torn_down w \<Longrightarrow> torn_down (step e w)"
  by (rule step_pres)
     (auto simp: torn_down_def op_defs split: option.splits)

lemma torn_down_run: "torn_down w \<Longrightarrow> torn_down (run es w)"
  by (induction es arbitrary: w) (simp_all add: torn_down_step)

lemma tick_torn_down: "torn_down w \<Longrightarrow> tick t w = w"
  by (simp add: torn_down_def tick_def)

lemma torn_down_unmount:
  assumes "wf_world w"
  shows "torn_down (unmount w)"
proof (cases "interval w")
  case None
  have "timers w = []"
  proof (cases "timers w")
    case (Cons p ps)
    then have "interval w = Some (fst p)"
      using assms by (simp add: wf_world_def)
    with None show ?thesis by simp
  qed simp
  then show ?thesis
    using None by (simp add: torn_down_def unmount_def polling_cleanup_def)
next
  case (Some h)
  then have "filter (\<lambda>p. fst p \<noteq> h) (timers w) = []"
    using assms by (auto simp: wf_world_def filter_empty_conv)
  moreover have "mounted w"
    using Some assms by (auto simp: wf_world_def)
  ultimately show ?thesis
    using Some by (simp add: torn_down_def unmount_def polling_cleanup_def clearInterval_def)
qed

lemma next_timer_step: "m \<le> next_timer w \<Longrightarrow> m \<le> next_timer (step e w)"
  by (rule step_pres)
     (auto simp: op_defs split: option.splits)

lemma stopped_after:
  assumes "wf_world w" and "interval w = Some h" and "interval (step e w) \<noteq> Some h"
  shows "stopped h (step e w)"
proof -
  have "h < next_timer w"
    using assms(1,2) by (simp add: wf_world_def)
  then have "h < next_timer (step e w)"
    using next_timer_step[of "Suc h" w e] by simp
  moreover have "h \<notin> fst ` set (timers (step e w))"
    using wf_step[OF assms(1), of e] assms(3) by (auto simp: wf_world_def)
  ultimately show ?thesis by (simp add: stopped_def)
qed

text \<open>
  Claim C9. Let the polling effect of a reachable world hold the interval handle \<open>h\<close>.
  Whenever an event makes the effect give the handle up (its cleanup ran: the component
  was unmounted, or the effect was set up again after a thread commit), then after any
  further events a tick of \<open>h\<close> does nothing: the world, and so the trace of requests, is
  unchanged. After an unmount this holds for every interval handle whatsoever: no timer
  of the page issues a fetch any more.
\<close>

theorem polling_teardown:
  assumes "reachable w"
  shows "(interval w = Some h \<and> interval (step e w) \<noteq> Some h \<longrightarrow>
            step (Tick h) (run es (step e w)) = run es (step e w))
         \<and> step (Tick t) (run es (step Unmount w)) = run es (step Unmount w)"
  using stopped_run[OF stopped_after[OF reachable_wf[OF assms], of h e], of es]
    torn_down_run[OF torn_down_unmount[OF reachable_wf[OF assms]], of es]
  by (simp add: tick_stopped tick_torn_down)

theorem polling_teardown_witness:
  "reachable chat_open \<and> interval chat_open = Some 1
   \<and> trace (step (Tick 1) chat_open)
       = trace chat_open @ [Req GetConversations, Req (GetMessages 1)]
   \<and> interval (step (Respond 1 (ThreadData alice [alice_msg])) chat_open) \<noteq> Some 1
   \<and> step (Tick 1) (run [ClickRefresh] (step (Respond 1 (ThreadData alice [alice_msg])) chat_open))
       = run [ClickRefresh] (step (Respond 1 (ThreadData alice [alice_msg])) chat_open)
   \<and> step (Tick 1) (run [ClickRefresh] (step Unmount chat_open))
       = run [ClickRefresh] (step Unmount chat_open)"
proof -
  have i: "interval chat_open = Some 1"
    and l: "trace (step (Tick 1) chat_open)
       = trace chat_open @ [Req GetConversations, Req (GetMessages 1)]"
    and j: "interval (step (Respond 1 (ThreadData alice [alice_msg])) chat_open) \<noteq> Some 1"
    by (simp_all add: chat_open_eq ev_defs alice_def)
  from polling_teardown[OF reachable_chat_open, of 1
      "Respond 1 (ThreadData alice [alice_msg])" "[ClickRefresh]" 1]
  show ?thesis
    using reachable_chat_open i l j by simp
qed

end
